theory Spec2Isabelle
  imports Main "HOL-Library.Sublist"
begin

section \<open>The TensorBoard manager of jupyterlab\_tensorboard\_pro\<close>

text \<open>
  A shallow embedding of \<^verbatim>\<open>src/manager.ts\<close> (class \<^verbatim>\<open>TensorboardManager\<close>).
  JavaScript strings are modelled as \<^typ>\<open>string\<close>, arrays as lists, the
  \<^verbatim>\<open>Set\<close> of handles as a duplicate-free list in insertion order, promises by
  splitting every asynchronous method into the part that runs synchronously and the
  continuation that runs once the remote call has settled, and every observable effect
  (signal emission, handle disposal, remote call) as an entry of a trace kept in the
  manager's state.
\<close>

subsection \<open>JavaScript string and array primitives used by the manager\<close>

text \<open>\<^verbatim>\<open>String.prototype.indexOf(pat)\<close>: the position of the first occurrence of
  \<open>pat\<close>, or \<open>-1\<close>.\<close>

fun str_indexOf :: "string \<Rightarrow> string \<Rightarrow> int" where
  "str_indexOf [] pat = (if pat = [] then 0 else -1)"
| "str_indexOf (c # cs) pat =
     (if prefix pat (c # cs) then 0
      else (let i = str_indexOf cs pat in if i = -1 then -1 else i + 1))"

text \<open>\<^verbatim>\<open>String.prototype.includes(pat)\<close>.\<close>

definition str_includes :: "string \<Rightarrow> string \<Rightarrow> bool" where
  "str_includes s pat = (str_indexOf s pat \<noteq> -1)"

text \<open>\<^verbatim>\<open>String.prototype.split(sep)\<close> for a one-character separator: every
  occurrence of the separator ends a field, so the result is never empty.\<close>

fun str_split :: "string \<Rightarrow> char \<Rightarrow> string list" where
  "str_split [] sep = [[]]"
| "str_split (c # cs) sep =
     (if c = sep then [] # str_split cs sep
      else (case str_split cs sep of
              [] \<Rightarrow> [[c]]
            | x # xs \<Rightarrow> (c # x) # xs))"

text \<open>\<^verbatim>\<open>Array.prototype.join(sep)\<close> on an array of strings.\<close>

fun join :: "string \<Rightarrow> string list \<Rightarrow> string" where
  "join sep [] = []"
| "join sep [x] = x"
| "join sep (x # y # ys) = x @ sep @ join sep (y # ys)"

text \<open>\<^verbatim>\<open>String.prototype.replace(pat, rep)\<close> with a string pattern: only the first
  occurrence is replaced. (The manager only passes the replacement \<^verbatim>\<open>''\<close>, so the
  \<^verbatim>\<open>$\<close> patterns of a replacement string play no role.)\<close>

fun str_replace :: "string \<Rightarrow> string \<Rightarrow> string \<Rightarrow> string" where
  "str_replace [] pat rep = (if pat = [] then rep else [])"
| "str_replace (c # cs) pat rep =
     (if prefix pat (c # cs) then rep @ drop (length pat) (c # cs)
      else c # str_replace cs pat rep)"

text \<open>\<^verbatim>\<open>s.replace(/^\//, '')\<close>: one leading slash is removed.\<close>

fun replace_leading_slash :: "string \<Rightarrow> string" where
  "replace_leading_slash [] = []"
| "replace_leading_slash (c # cs) = (if c = CHR ''/'' then cs else c # cs)"

text \<open>\<^verbatim>\<open>ArrayExt.findFirstIndex(array, fn)\<close> of \<^verbatim>\<open>@lumino/algorithm\<close>: the index of the
  first element that satisfies the predicate, or \<open>-1\<close>.\<close>

fun findFirstIndex :: "'a list \<Rightarrow> ('a \<Rightarrow> bool) \<Rightarrow> int" where
  "findFirstIndex [] fn = -1"
| "findFirstIndex (x # xs) fn =
     (if fn x then 0
      else (let i = findFirstIndex xs fn in if i = -1 then -1 else i + 1))"

text \<open>\<^verbatim>\<open>Array.prototype.indexOf(x)\<close>.\<close>

definition indexOf :: "'a list \<Rightarrow> 'a \<Rightarrow> int" where
  "indexOf xs x = findFirstIndex xs (\<lambda>y. y = x)"

text \<open>\<^verbatim>\<open>array.splice(index, 1)\<close> for an index that \<^verbatim>\<open>findFirstIndex\<close> returned
  (the manager never calls it with \<open>-1\<close>).\<close>

definition splice :: "'a list \<Rightarrow> int \<Rightarrow> 'a list" where
  "splice xs index = take (nat index) xs @ drop (Suc (nat index)) xs"

subsection \<open>Data model\<close>

text \<open>
  Modelled from the spec: \<^verbatim>\<open>Tensorboard.IModel\<close>, \<^verbatim>\<open>Tensorboard.StaticConfig\<close> and
  \<^verbatim>\<open>Tensorboard.ITensorboard\<close> are declared in \<^verbatim>\<open>tensorboard.ts\<close>, which is not part
  of the sources at hand. A model is a value object with the five fields the spec lists
  (an absent \<^verbatim>\<open>reload_interval\<close> is \<open>None\<close>); the static configuration holds at least
  the workspace root \<^verbatim>\<open>notebook_dir\<close>; a handle is a live object that wraps a model.
  Handles are compared by reference in the \<^verbatim>\<open>Set\<close>, so a handle carries the identity
  \<open>tb_id\<close> of its object; its \<^verbatim>\<open>name\<close> is the name of its model.
\<close>

record IModel =
  name :: string
  logdir :: string
  reload_interval :: "int option"
  enable_multi_log :: bool
  additional_args :: string

record StaticConfig =
  notebook_dir :: string

record ITensorboard =
  tb_id :: nat
  model :: IModel

definition tb_name :: "ITensorboard \<Rightarrow> string" where
  "tb_name t = name (model t)"

text \<open>Modelled from the spec: \<^verbatim>\<open>JSONExt.deepEqual\<close> of \<^verbatim>\<open>@lumino/coreutils\<close> is deep
  value equality of JSON values, here of two arrays of models.\<close>

definition deepEqual :: "IModel list \<Rightarrow> IModel list \<Rightarrow> bool" where
  "deepEqual first second = (first = second)"

text \<open>The failure of a remote call, and the two ways a promise settles.\<close>

datatype error = BackendError

datatype 'a settled = Fulfilled 'a | Rejected error

text \<open>The observable effects of the manager, in program order: an emission of the
  \<^verbatim>\<open>runningChanged\<close> signal with its payload, the disposal of a handle, the connection
  of a slot to a handle's \<^verbatim>\<open>terminated\<close> signal, and the four remote calls. Beside
  the fields of the class, the state keeps this \<open>trace\<close> and, in \<open>seen\<close>, what the
  manager holds at the moment of each emission, which is what a slot that runs inside
  the emission finds: \<^verbatim>\<open>_models\<close> and \<^verbatim>\<open>_tensorboards\<close>, one entry per emission.\<close>

datatype effect =
    Emitted "IModel list"
  | Disposed ITensorboard
  | ConnectTerminated ITensorboard
  | ListRunningCall
  | GetStaticConfigCall
  | ShutdownCall string
  | StartNewCall string int bool string

record manager =
  models :: "IModel list"
  tensorboards :: "ITensorboard list"
  isDisposed :: bool
  isReady :: bool
  refreshTimer :: bool
  statusConfig :: "StaticConfig option"
  receivers :: "nat list"
  trace :: "effect list"
  seen :: "(IModel list \<times> ITensorboard list) list"

subsection \<open>The handle set and the signal\<close>

text \<open>\<^verbatim>\<open>Set.prototype.add\<close> and \<^verbatim>\<open>Set.prototype.delete\<close> on the insertion-ordered,
  duplicate-free list that stands for the \<^verbatim>\<open>Set\<close>.\<close>

definition set_add :: "'a \<Rightarrow> 'a list \<Rightarrow> 'a list" where
  "set_add x xs = (if x \<in> set xs then xs else xs @ [x])"

definition set_delete :: "'a \<Rightarrow> 'a list \<Rightarrow> 'a list" where
  "set_delete x xs = removeAll x xs"

text \<open>\<^verbatim>\<open>this._runningChanged.emit(args)\<close>: the slots run now, with the manager as it is
  at this point of the method.\<close>

definition emit :: "IModel list \<Rightarrow> manager \<Rightarrow> manager" where
  "emit args this =
     this\<lparr>trace := trace this @ [Emitted args],
          seen := seen this @ [(models this, tensorboards this)]\<rparr>"

text \<open>Modelled from the spec: \<^verbatim>\<open>ITensorboard.dispose\<close> is implemented in
  \<^verbatim>\<open>tensorboard.ts\<close>, which is not part of the sources at hand. The spec only says that
  a handle is disposed and never reused; the disposal is recorded as an effect and
  touches nothing of the manager.\<close>

definition tb_dispose :: "ITensorboard \<Rightarrow> manager \<Rightarrow> manager" where
  "tb_dispose t this = this\<lparr>trace := trace this @ [Disposed t]\<rparr>"

text \<open>The two loops that \<^verbatim>\<open>shutdown\<close>, \<^verbatim>\<open>shutdownAll\<close> and \<^verbatim>\<open>_refreshRunning\<close> share:
  \<^verbatim>\<open>this._tensorboards.forEach(t => { if (cond(t)) { t.dispose(); toRemove.push(t); } })\<close>
  and then \<^verbatim>\<open>toRemove.forEach(t => { this._tensorboards.delete(t); })\<close>.\<close>

fun forEach_dispose ::
  "(ITensorboard \<Rightarrow> bool) \<Rightarrow> ITensorboard list \<Rightarrow> manager \<Rightarrow> ITensorboard list
     \<Rightarrow> manager \<times> ITensorboard list" where
  "forEach_dispose cond [] this toRemove = (this, toRemove)"
| "forEach_dispose cond (t # ts) this toRemove =
     (if cond t then forEach_dispose cond ts (tb_dispose t this) (toRemove @ [t])
      else forEach_dispose cond ts this toRemove)"

fun forEach_delete :: "ITensorboard list \<Rightarrow> manager \<Rightarrow> manager" where
  "forEach_delete [] this = this"
| "forEach_delete (t # ts) this =
     forEach_delete ts (this\<lparr>tensorboards := set_delete t (tensorboards this)\<rparr>)"

definition dispose_and_remove :: "(ITensorboard \<Rightarrow> bool) \<Rightarrow> manager \<Rightarrow> manager" where
  "dispose_and_remove cond this =
     (case forEach_dispose cond (tensorboards this) this [] of
        (this1, toRemove) \<Rightarrow> forEach_delete toRemove this1)"

subsection \<open>Construction, disposal and the static configuration\<close>

text \<open>The constructor issues the first poll and the request for the static
  configuration, and starts the timer. \<^verbatim>\<open>refreshRunning_call\<close> is the synchronous part
  of \<^verbatim>\<open>_refreshRunning\<close>: the call of \<^verbatim>\<open>Tensorboard.listRunning\<close>.\<close>

definition refreshRunning_call :: "manager \<Rightarrow> manager" where
  "refreshRunning_call this = this\<lparr>trace := trace this @ [ListRunningCall]\<rparr>"

definition getStaticConfig_call :: "manager \<Rightarrow> manager" where
  "getStaticConfig_call this = this\<lparr>trace := trace this @ [GetStaticConfigCall]\<rparr>"

definition getStaticConfig_settle ::
  "StaticConfig settled \<Rightarrow> manager \<Rightarrow> manager \<times> unit settled" where
  "getStaticConfig_settle r this =
     (case r of
        Fulfilled config \<Rightarrow> (this\<lparr>statusConfig := Some config\<rparr>, Fulfilled ())
      | Rejected e \<Rightarrow> (this, Rejected e))"

definition constructor :: manager where
  "constructor =
     getStaticConfig_call
       (refreshRunning_call
          \<lparr>models = [], tensorboards = [], isDisposed = False, isReady = False,
           refreshTimer = True, statusConfig = None, receivers = [], trace = [],
           seen = []\<rparr>)"

definition dispose :: "manager \<Rightarrow> manager" where
  "dispose this =
     (if isDisposed this then this
      else this\<lparr>isDisposed := True, refreshTimer := False, receivers := [], models := []\<rparr>)"

definition running :: "manager \<Rightarrow> IModel list" where
  "running this = models this"

subsection \<open>Polling\<close>

text \<open>The continuation of \<^verbatim>\<open>_refreshRunning\<close>, run with the fetched list once
  \<^verbatim>\<open>Tensorboard.listRunning\<close> has fulfilled; a rejection skips it and rejects the
  promise that \<^verbatim>\<open>_refreshRunning\<close> returned.\<close>

definition refreshRunning_then :: "IModel list \<Rightarrow> manager \<Rightarrow> manager" where
  "refreshRunning_then ms this =
     (let this1 = this\<lparr>isReady := True\<rparr> in
        if \<not> deepEqual ms (models this1) then
          (let names = map name ms;
               this2 = dispose_and_remove (\<lambda>t. indexOf names (tb_name t) = -1) this1;
               this3 = this2\<lparr>models := ms\<rparr>
           in emit ms this3)
        else this1)"

definition refreshRunning_settle ::
  "IModel list settled \<Rightarrow> manager \<Rightarrow> manager \<times> unit settled" where
  "refreshRunning_settle r this =
     (case r of
        Fulfilled ms \<Rightarrow> (refreshRunning_then ms this, Fulfilled ())
      | Rejected e \<Rightarrow> (this, Rejected e))"

text \<open>One whole call of \<^verbatim>\<open>refreshRunning\<close> with nothing else running in between.\<close>

definition refreshRunning :: "IModel list settled \<Rightarrow> manager \<Rightarrow> manager \<times> unit settled" where
  "refreshRunning r this = refreshRunning_settle r (refreshRunning_call this)"

text \<open>The timer callback: the poll is skipped while the document is hidden.\<close>

definition timer_tick :: "bool \<Rightarrow> manager \<Rightarrow> manager" where
  "timer_tick hidden this = (if hidden then this else refreshRunning_call this)"

subsection \<open>Starting and termination\<close>

definition onTerminated :: "string \<Rightarrow> manager \<Rightarrow> manager" where
  "onTerminated nm this =
     (let index = findFirstIndex (models this) (\<lambda>value. name value = nm) in
        if index \<noteq> -1 then
          (let this1 = this\<lparr>models := splice (models this) index\<rparr>
           in emit (models this1) this1)
        else this)"

definition onStarted :: "ITensorboard \<Rightarrow> manager \<Rightarrow> manager" where
  "onStarted tensorboard this =
     (let nm = tb_name tensorboard;
          this1 = this\<lparr>tensorboards := set_add tensorboard (tensorboards this)\<rparr>;
          index = findFirstIndex (models this1) (\<lambda>value. name value = nm);
          this2 = (if index = -1 then
                     (let this' = this1\<lparr>models := models this1 @ [model tensorboard]\<rparr>
                      in emit (models this') this')
                   else this1)
      in this2\<lparr>trace := trace this2 @ [ConnectTerminated tensorboard]\<rparr>)"

text \<open>\<^verbatim>\<open>startNew\<close>: the call of \<^verbatim>\<open>Tensorboard.startNew\<close> (the refresh interval is
  passed through untouched), and what follows the \<^verbatim>\<open>await\<close>.\<close>

definition startNew_call :: "string \<Rightarrow> int \<Rightarrow> bool \<Rightarrow> string \<Rightarrow> manager \<Rightarrow> manager" where
  "startNew_call dir refreshInterval enableMultiLog additionalArgs this =
     this\<lparr>trace := trace this @ [StartNewCall dir refreshInterval enableMultiLog additionalArgs]\<rparr>"

definition startNew_settle ::
  "ITensorboard settled \<Rightarrow> manager \<Rightarrow> manager \<times> ITensorboard settled" where
  "startNew_settle r this =
     (case r of
        Fulfilled tensorboard \<Rightarrow> (onStarted tensorboard this, Fulfilled tensorboard)
      | Rejected e \<Rightarrow> (this, Rejected e))"

subsection \<open>Shutting down\<close>

text \<open>The synchronous part of \<^verbatim>\<open>shutdown\<close>. The second component is \<open>Some\<close> when the
  returned promise is settled without a remote call, and \<open>None\<close> while it waits for
  \<^verbatim>\<open>Tensorboard.shutdown\<close>.\<close>

definition shutdown_call :: "string \<Rightarrow> manager \<Rightarrow> manager \<times> unit settled option" where
  "shutdown_call nm this =
     (let index = findFirstIndex (models this) (\<lambda>value. name value = nm) in
        if index = -1 then (this, Some (Fulfilled ()))
        else
          (let this1 = this\<lparr>models := splice (models this) index\<rparr>;
               this2 = emit (models this1) this1
           in (this2\<lparr>trace := trace this2 @ [ShutdownCall nm]\<rparr>, None)))"

definition shutdown_then :: "string \<Rightarrow> manager \<Rightarrow> manager" where
  "shutdown_then nm this = dispose_and_remove (\<lambda>t. tb_name t = nm) this"

definition shutdown_settle :: "string \<Rightarrow> unit settled \<Rightarrow> manager \<Rightarrow> manager \<times> unit settled" where
  "shutdown_settle nm r this =
     (case r of
        Fulfilled u \<Rightarrow> (shutdown_then nm this, Fulfilled ())
      | Rejected e \<Rightarrow> (this, Rejected e))"

text \<open>\<^verbatim>\<open>shutdownAll\<close>: the synchronous part returns the captured array; the second
  part runs when the poll has settled and issues the remote shutdowns; the third runs
  as each remote shutdown settles. A non-empty captured array is detached from
  \<^verbatim>\<open>this._models\<close> by the assignment of a new array; an empty one stays the very array
  \<^verbatim>\<open>this._models\<close> refers to, so the argument \<open>ms\<close> of the second part is the content
  of the captured array at that time.\<close>

definition shutdownAll_call :: "manager \<Rightarrow> manager \<times> IModel list" where
  "shutdownAll_call this =
     (let ms = models this;
          this1 = (if length ms > 0 then emit [] (this\<lparr>models := []\<rparr>) else this)
      in (refreshRunning_call this1, ms))"

definition shutdownAll_refreshed ::
  "IModel list \<Rightarrow> IModel list settled \<Rightarrow> manager \<Rightarrow> manager \<times> unit settled option" where
  "shutdownAll_refreshed ms r this =
     (case refreshRunning_settle r this of
        (this1, Rejected e) \<Rightarrow> (this1, Some (Rejected e))
      | (this1, Fulfilled u) \<Rightarrow>
          (this1\<lparr>trace := trace this1 @ map (\<lambda>m. ShutdownCall (name m)) ms\<rparr>,
           if ms = [] then Some (Fulfilled ()) else None))"

definition shutdownAll_then :: "manager \<Rightarrow> manager" where
  "shutdownAll_then this = dispose_and_remove (\<lambda>t. True) this"

definition shutdownAll_settle_one :: "unit settled \<Rightarrow> manager \<Rightarrow> manager \<times> unit settled" where
  "shutdownAll_settle_one r this =
     (case r of
        Fulfilled u \<Rightarrow> (shutdownAll_then this, Fulfilled ())
      | Rejected e \<Rightarrow> (this, Rejected e))"

text \<open>\<^verbatim>\<open>Promise.all\<close> over the remote shutdowns, settling in the order given: it
  rejects with the first rejection, and the later shutdowns still settle.\<close>

fun shutdownAll_settle_all :: "unit settled list \<Rightarrow> manager \<Rightarrow> manager \<times> unit settled" where
  "shutdownAll_settle_all [] this = (this, Fulfilled ())"
| "shutdownAll_settle_all (r # rs) this =
     (case shutdownAll_settle_one r this of
        (this1, r1) \<Rightarrow>
          (case shutdownAll_settle_all rs this1 of
             (this2, r2) \<Rightarrow>
               (this2, (case r1 of Rejected e \<Rightarrow> Rejected e | Fulfilled u \<Rightarrow> r2))))"

text \<open>One whole call of \<^verbatim>\<open>shutdownAll\<close> with nothing else running in between: the poll
  settles with \<open>listed\<close>, the remote shutdowns with \<open>results\<close>, one per captured model.\<close>

definition shutdownAll ::
  "IModel list settled \<Rightarrow> unit settled list \<Rightarrow> manager \<Rightarrow> manager \<times> unit settled" where
  "shutdownAll listed results this =
     (case shutdownAll_call this of
        (this1, ms) \<Rightarrow>
          (case shutdownAll_refreshed ms listed this1 of
             (this2, Some r) \<Rightarrow> (this2, r)
           | (this2, None) \<Rightarrow> shutdownAll_settle_all (take (length ms) results) this2))"

text \<open>One whole call of \<^verbatim>\<open>shutdown\<close> with nothing else running in between.\<close>

definition shutdown :: "string \<Rightarrow> unit settled \<Rightarrow> manager \<Rightarrow> manager \<times> unit settled" where
  "shutdown nm r this =
     (case shutdown_call nm this of
        (this1, Some done) \<Rightarrow> (this1, done)
      | (this1, None) \<Rightarrow> shutdown_settle nm r this1)"

text \<open>The change events in a trace, and the disposals in a trace.\<close>

fun emitted :: "effect list \<Rightarrow> IModel list list" where
  "emitted [] = []"
| "emitted (Emitted args # es) = args # emitted es"
| "emitted (e # es) = emitted es"

fun disposals :: "effect list \<Rightarrow> ITensorboard list" where
  "disposals [] = []"
| "disposals (Disposed t # es) = t # disposals es"
| "disposals (e # es) = disposals es"

text \<open>The invariant of the spec's data model: every handle held has a name that
  appears in \<^verbatim>\<open>models\<close>; and the invariant that names are unique in \<^verbatim>\<open>models\<close>.\<close>

definition handles_in_models :: "manager \<Rightarrow> bool" where
  "handles_in_models this =
     list_all (\<lambda>t. tb_name t \<in> set (map name (models this))) (tensorboards this)"

definition unique_names :: "manager \<Rightarrow> bool" where
  "unique_names this = distinct (map name (models this))"

subsection \<open>Example states\<close>

text \<open>The instance of the spec's scenario, two handle objects that wrap it, a second
  instance, and a manager with the workspace root \<^verbatim>\<open>/home/user\<close>: idle, and with the
  first instance running and held.\<close>

definition tb1 :: IModel where
  "tb1 = \<lparr>name = ''tb1'', logdir = ''/a'', reload_interval = None,
          enable_multi_log = False, additional_args = []\<rparr>"

definition tb2 :: IModel where
  "tb2 = \<lparr>name = ''tb2'', logdir = ''/b'', reload_interval = Some 30,
          enable_multi_log = False, additional_args = []\<rparr>"

definition handle1 :: ITensorboard where
  "handle1 = \<lparr>tb_id = 1, model = tb1\<rparr>"

definition handle1' :: ITensorboard where
  "handle1' = \<lparr>tb_id = 2, model = tb1\<rparr>"

definition idle :: manager where
  "idle = \<lparr>models = [], tensorboards = [], isDisposed = False, isReady = True,
           refreshTimer = True, statusConfig = Some \<lparr>notebook_dir = ''/home/user''\<rparr>,
           receivers = [], trace = [], seen = []\<rparr>"

definition running1 :: manager where
  "running1 = idle\<lparr>models := [tb1], tensorboards := [handle1]\<rparr>"

subsection \<open>formatDir\<close>

lemma str_split_not_Nil: "str_split s sep \<noteq> []"
  by (induction s) (auto split: list.splits)

lemma str_split_no_sep: "x \<in> set (str_split s sep) \<Longrightarrow> sep \<notin> set x"
  by (induction s arbitrary: x) (auto split: if_splits list.splits)

lemma str_split_subset: "x \<in> set (str_split s sep) \<Longrightarrow> set x \<subseteq> set s"
proof (induction s arbitrary: x)
  case Nil
  then show ?case by simp
next
  case (Cons c cs)
  obtain y ys where split: "str_split cs sep = y # ys"
    using str_split_not_Nil [of cs sep] by (cases "str_split cs sep") auto
  from Cons.IH [of y] split have y: "set y \<subseteq> set cs" by simp
  from Cons.IH split have ys: "\<And>z. z \<in> set ys \<Longrightarrow> set z \<subseteq> set cs" by simp
  from Cons.prems split y ys show ?case
    by (auto split: if_splits)
qed

lemma str_split_length: "sep \<in> set s \<Longrightarrow> 2 \<le> length (str_split s sep)"
proof (induction s)
  case Nil
  then show ?case by simp
next
  case (Cons c cs)
  show ?case
  proof (cases "c = sep")
    case True
    then show ?thesis
      using str_split_not_Nil [of cs sep] by (cases "str_split cs sep") auto
  next
    case False
    with Cons show ?thesis
      by (auto split: list.splits)
  qed
qed

lemma str_indexOf_single: "(str_indexOf s [c] = -1) = (c \<notin> set s)"
proof (induction s)
  case Nil
  then show ?case by simp
next
  case (Cons a s)
  have nonneg: "0 \<le> str_indexOf s [c] \<or> str_indexOf s [c] = -1" for s
    by (induction s) (auto simp: Let_def)
  from Cons nonneg [of s] show ?case
    by (auto simp: Let_def)
qed

lemma str_includes_single: "str_includes s [c] = (c \<in> set s)"
  by (simp add: str_includes_def str_indexOf_single)

function formatDir :: "manager \<Rightarrow> string \<Rightarrow> string" where
  "formatDir this dir =
     (let pageRoot = (case statusConfig this of
                        None \<Rightarrow> None
                      | Some config \<Rightarrow> Some (notebook_dir config))
      in
        if str_includes dir '','' then
          (let dirs = str_split dir CHR '','' in
             join '',''
               (map (\<lambda>d. if str_includes d '':''
                          then (str_split d CHR '':'' ! 0) @ '':'' @
                               formatDir this (str_split d CHR '':'' ! 1)
                          else formatDir this d)
                    dirs))
        else
          (case pageRoot of
             None \<Rightarrow> dir
           | Some root \<Rightarrow>
               if root \<noteq> [] \<and> str_indexOf dir root = 0 then
                 (let replaceResult = str_replace dir root [];
                      replaceResult = (if replaceResult = [] then ''/'' else replaceResult);
                      formatted = replace_leading_slash replaceResult
                  in if formatted = [] then ''<workspace_root>'' else formatted)
               else dir))"
  by pat_completeness auto
termination
proof (relation "measure (\<lambda>(this, dir). if CHR '','' \<in> set dir then 1 else 0)")
  show "wf (measure (\<lambda>(this, dir). if CHR '','' \<in> set dir then 1 else (0::nat)))"
    by simp
next
  fix this :: manager and dir :: string and x xa xb
  assume inc: "str_includes dir '',''" and xa: "xa = str_split dir CHR '',''"
    and xb: "xb \<in> set xa" and col: "str_includes xb '':''"
  from xb xa have nocomma: "CHR '','' \<notin> set xb"
    using str_split_no_sep by blast
  from col have "CHR '':'' \<in> set xb"
    by (simp add: str_includes_single)
  then have "1 < length (str_split xb CHR '':'')"
    using str_split_length [of "CHR '':''" xb] by simp
  then have "str_split xb CHR '':'' ! 1 \<in> set (str_split xb CHR '':'')"
    by simp
  then have "set (str_split xb CHR '':'' ! 1) \<subseteq> set xb"
    by (rule str_split_subset)
  with nocomma have "CHR '','' \<notin> set (str_split xb CHR '':'' ! 1)"
    by blast
  moreover from inc have "CHR '','' \<in> set dir"
    by (simp add: str_includes_single)
  ultimately show "((this, str_split xb CHR '':'' ! 1), this, dir)
      \<in> measure (\<lambda>(this, dir). if CHR '','' \<in> set dir then 1 else 0)"
    by simp
next
  fix this :: manager and dir :: string and x xa xb
  assume inc: "str_includes dir '',''" and xa: "xa = str_split dir CHR '',''"
    and xb: "xb \<in> set xa"
  from xb xa have "CHR '','' \<notin> set xb"
    using str_split_no_sep by blast
  moreover from inc have "CHR '','' \<in> set dir"
    by (simp add: str_includes_single)
  ultimately show "((this, xb), this, dir)
      \<in> measure (\<lambda>(this, dir). if CHR '','' \<in> set dir then 1 else 0)"
    by simp
qed

declare formatDir.simps [simp del]

subsection \<open>Facts about the primitives\<close>

lemma findFirstIndex_range: "findFirstIndex xs fn = -1 \<or> 0 \<le> findFirstIndex xs fn"
  by (induction xs) (auto simp: Let_def)

lemma findFirstIndex_none: "(findFirstIndex xs fn = -1) = (\<forall>x \<in> set xs. \<not> fn x)"
proof (induction xs)
  case Nil
  then show ?case by simp
next
  case (Cons x xs)
  with findFirstIndex_range [of xs fn] show ?case
    by (auto simp: Let_def)
qed

lemma indexOf_none: "(indexOf xs x = -1) = (x \<notin> set xs)"
  by (auto simp: indexOf_def findFirstIndex_none)

lemma splice_findFirstIndex:
  "\<exists>x \<in> set xs. fn x \<Longrightarrow>
   splice xs (findFirstIndex xs fn) =
     takeWhile (\<lambda>x. \<not> fn x) xs @ tl (dropWhile (\<lambda>x. \<not> fn x) xs)"
proof (induction xs)
  case Nil
  then show ?case by simp
next
  case (Cons x xs)
  show ?case
  proof (cases "fn x")
    case True
    then show ?thesis by (simp add: splice_def)
  next
    case False
    with Cons.prems have ex: "\<exists>x \<in> set xs. fn x" by simp
    then have "findFirstIndex xs fn \<noteq> -1" by (simp add: findFirstIndex_none)
    with findFirstIndex_range [of xs fn] have nonneg: "0 \<le> findFirstIndex xs fn" by simp
    then have "nat (findFirstIndex xs fn + 1) = Suc (nat (findFirstIndex xs fn))" by simp
    with False Cons.IH [OF ex] \<open>findFirstIndex xs fn \<noteq> -1\<close> show ?thesis
      by (simp add: splice_def Let_def)
  qed
qed

lemma forEach_dispose_result:
  "forEach_dispose cond ts this acc =
     (this\<lparr>trace := trace this @ map Disposed (filter cond ts)\<rparr>, acc @ filter cond ts)"
  by (induction ts arbitrary: this acc) (simp_all add: tb_dispose_def)

lemma forEach_delete_result:
  "forEach_delete rs this =
     this\<lparr>tensorboards := filter (\<lambda>t. t \<notin> set rs) (tensorboards this)\<rparr>"
proof (induction rs arbitrary: this)
  case Nil
  then show ?case by simp
next
  case (Cons r rs)
  have "filter (\<lambda>t. t \<notin> set rs) (removeAll r ts) = filter (\<lambda>t. t \<noteq> r \<and> t \<notin> set rs) ts" for ts
    by (induction ts) auto
  with Cons show ?case by (simp add: set_delete_def)
qed

lemma dispose_and_remove_result:
  "dispose_and_remove cond this =
     this\<lparr>trace := trace this @ map Disposed (filter cond (tensorboards this)),
          tensorboards := filter (\<lambda>t. \<not> cond t) (tensorboards this)\<rparr>"
proof -
  have "filter (\<lambda>t. t \<notin> set (filter cond ts)) ts = filter (\<lambda>t. \<not> cond t) ts" for ts
    by (rule filter_cong) auto
  then show ?thesis
    by (simp add: dispose_and_remove_def forEach_dispose_result forEach_delete_result)
qed

lemma emitted_append: "emitted (es @ fs) = emitted es @ emitted fs"
  by (induction es rule: emitted.induct) simp_all

lemma emitted_Disposed: "emitted (map Disposed ts) = []"
  by (induction ts) simp_all

lemma disposals_append: "disposals (es @ fs) = disposals es @ disposals fs"
  by (induction es rule: disposals.induct) simp_all

lemma disposals_Disposed: "disposals (map Disposed ts) = ts"
  by (induction ts) simp_all

lemma first_removed_names:
  assumes "distinct (map f xs)" and "\<exists>x \<in> set xs. f x = k"
  shows "k \<notin> f ` set (takeWhile (\<lambda>x. f x \<noteq> k) xs @ tl (dropWhile (\<lambda>x. f x \<noteq> k) xs))"
proof -
  let ?pre = "takeWhile (\<lambda>x. f x \<noteq> k) xs" and ?post = "dropWhile (\<lambda>x. f x \<noteq> k) xs"
  from assms(2) have "?post \<noteq> []" by (auto simp: dropWhile_eq_Nil_conv)
  then obtain m rest where post: "?post = m # rest" by (cases ?post) auto
  then have km: "f m = k" using hd_dropWhile [of "\<lambda>x. f x \<noteq> k" xs] by force
  have "xs = ?pre @ m # rest" using post takeWhile_dropWhile_id [of "\<lambda>x. f x \<noteq> k" xs] by simp
  then have "distinct (map f (?pre @ m # rest))" using assms(1) by simp
  then have "f m \<notin> f ` set rest" by auto
  moreover have "k \<notin> f ` set ?pre" by (auto dest: set_takeWhileD)
  ultimately show ?thesis using km post by auto
qed

lemma first_removed_length:
  assumes "\<exists>x \<in> set xs. P x"
  shows "Suc (length (takeWhile (\<lambda>x. \<not> P x) xs @ tl (dropWhile (\<lambda>x. \<not> P x) xs))) = length xs"
proof -
  from assms have "dropWhile (\<lambda>x. \<not> P x) xs \<noteq> []" by (auto simp: dropWhile_eq_Nil_conv)
  then have "Suc (length (tl (dropWhile (\<lambda>x. \<not> P x) xs))) = length (dropWhile (\<lambda>x. \<not> P x) xs)"
    by (cases "dropWhile (\<lambda>x. \<not> P x) xs") auto
  moreover have "length (takeWhile (\<lambda>x. \<not> P x) xs) + length (dropWhile (\<lambda>x. \<not> P x) xs) = length xs"
    using takeWhile_dropWhile_id [of "\<lambda>x. \<not> P x" xs] by (metis length_append)
  ultimately show ?thesis by simp
qed

lemma shutdown_call_present:
  assumes "nm \<in> set (map name (models this))"
  shows "shutdown_call nm this =
     (this\<lparr>models := takeWhile (\<lambda>m. name m \<noteq> nm) (models this)
                        @ tl (dropWhile (\<lambda>m. name m \<noteq> nm) (models this)),
           trace := trace this @
             [Emitted (takeWhile (\<lambda>m. name m \<noteq> nm) (models this)
                        @ tl (dropWhile (\<lambda>m. name m \<noteq> nm) (models this))),
              ShutdownCall nm],
           seen := seen this @
             [(takeWhile (\<lambda>m. name m \<noteq> nm) (models this)
                 @ tl (dropWhile (\<lambda>m. name m \<noteq> nm) (models this)),
               tensorboards this)]\<rparr>, None)"
proof -
  from assms have ex: "\<exists>m \<in> set (models this). name m = nm" by auto
  then have "findFirstIndex (models this) (\<lambda>value. name value = nm) \<noteq> -1"
    by (simp add: findFirstIndex_none)
  with splice_findFirstIndex [of "models this" "\<lambda>value. name value = nm", OF ex] show ?thesis
    by (simp add: shutdown_call_def Let_def emit_def)
qed

lemmas example_defs = tb1_def tb2_def handle1_def handle1'_def idle_def running1_def

lemma shutdown_then_result:
  "shutdown_then nm this =
     this\<lparr>trace := trace this @ map Disposed (filter (\<lambda>t. tb_name t = nm) (tensorboards this)),
          tensorboards := filter (\<lambda>t. tb_name t \<noteq> nm) (tensorboards this)\<rparr>"
  by (simp add: shutdown_then_def dispose_and_remove_result)

lemma onStarted_result:
  "onStarted t this =
     (if tb_name t \<in> set (map name (models this))
      then this\<lparr>tensorboards := set_add t (tensorboards this),
                trace := trace this @ [ConnectTerminated t]\<rparr>
      else this\<lparr>tensorboards := set_add t (tensorboards this),
                models := models this @ [model t],
                trace := trace this @ [Emitted (models this @ [model t]), ConnectTerminated t],
                seen := seen this @ [(models this @ [model t], set_add t (tensorboards this))]\<rparr>)"
proof -
  have "(findFirstIndex (models this) (\<lambda>value. name value = tb_name t) = -1)
      = (tb_name t \<notin> set (map name (models this)))"
    unfolding findFirstIndex_none by (auto simp: image_iff)
  then show ?thesis
    by (simp add: onStarted_def Let_def emit_def)
qed

lemma tensorboards_onStarted:
  "tensorboards (onStarted t this) = set_add t (tensorboards this)"
  by (simp add: onStarted_result)

lemma set_set_add: "set (set_add x xs) = insert x (set xs)"
  by (auto simp: set_add_def)

lemma count_unique:
  assumes "distinct (map f xs)" and "x \<in> set xs"
  shows "length (filter (\<lambda>y. f y = f x) xs) = 1"
  using assms
proof (induction xs)
  case Nil
  then show ?case by simp
next
  case (Cons a xs)
  show ?case
  proof (cases "f a = f x")
    case True
    from Cons.prems(1) have "f a \<notin> f ` set xs" by simp
    with True have "f x \<notin> f ` set xs" by simp
    then have "\<forall>y \<in> set xs. f y \<noteq> f x" by (metis imageI)
    then have "filter (\<lambda>y. f y = f x) xs = []" by (simp add: filter_empty_conv)
    with True show ?thesis by simp
  next
    case False
    with Cons show ?thesis by auto
  qed
qed

lemma count_unique_name:
  assumes "distinct (map f xs)" and "k \<in> set (map f xs)"
  shows "length (filter (\<lambda>y. f y = k) xs) = 1"
proof -
  from assms(2) obtain x where "x \<in> set xs" "f x = k" by auto
  with count_unique [OF assms(1), of x] show ?thesis by simp
qed

lemma first_removed_keeps_others:
  assumes "k \<in> f ` set xs" and "k \<noteq> n"
  shows "k \<in> f ` set (takeWhile (\<lambda>x. f x \<noteq> n) xs @ tl (dropWhile (\<lambda>x. f x \<noteq> n) xs))"
proof -
  let ?pre = "takeWhile (\<lambda>x. f x \<noteq> n) xs" and ?post = "dropWhile (\<lambda>x. f x \<noteq> n) xs"
  from assms(1) obtain x where x: "x \<in> set xs" "f x = k" by auto
  have "set xs = set ?pre \<union> set ?post"
    using takeWhile_dropWhile_id [of "\<lambda>x. f x \<noteq> n" xs] by (metis set_append)
  with x(1) consider "x \<in> set ?pre" | "x \<in> set ?post" by auto
  then show ?thesis
  proof cases
    case 1
    with x(2) show ?thesis by auto
  next
    case 2
    then obtain m rest where post: "?post = m # rest" by (cases ?post) auto
    then have "f m = n" using hd_dropWhile [of "\<lambda>x. f x \<noteq> n" xs] by force
    with x(2) assms(2) have "x \<noteq> m" by auto
    with 2 post have "x \<in> set rest" by simp
    with post x(2) show ?thesis by auto
  qed
qed

lemma handles_in_models_onStarted:
  "handles_in_models this \<Longrightarrow> handles_in_models (onStarted t this)"
  by (auto simp: handles_in_models_def onStarted_result set_set_add list_all_iff tb_name_def)

lemma handles_in_models_refreshRunning_then:
  assumes "handles_in_models this \<or> \<not> deepEqual ms (models this)"
  shows "handles_in_models (refreshRunning_then ms this)"
proof (cases "deepEqual ms (models this)")
  case True
  with assms show ?thesis
    by (simp add: refreshRunning_then_def handles_in_models_def)
next
  case False
  then show ?thesis
    by (simp add: refreshRunning_then_def handles_in_models_def Let_def emit_def
        dispose_and_remove_result indexOf_none list_all_iff)
qed

lemma handles_in_models_shutdown:
  assumes "handles_in_models this"
  shows "handles_in_models (fst (shutdown nm (Fulfilled ()) this))"
proof (cases "nm \<in> set (map name (models this))")
  case True
  have "tb_name t \<in> name ` set (takeWhile (\<lambda>m. name m \<noteq> nm) (models this)
          @ tl (dropWhile (\<lambda>m. name m \<noteq> nm) (models this)))"
    if "t \<in> set (tensorboards this)" and "tb_name t \<noteq> nm" for t
  proof -
    from assms that(1) have "tb_name t \<in> name ` set (models this)"
      by (simp add: handles_in_models_def list_all_iff)
    then show ?thesis using that(2) by (rule first_removed_keeps_others)
  qed
  then show ?thesis
    by (auto simp: shutdown_def shutdown_call_present [OF True] shutdown_settle_def
        shutdown_then_result handles_in_models_def list_all_iff)
next
  case False
  then have "findFirstIndex (models this) (\<lambda>value. name value = nm) = -1"
    unfolding findFirstIndex_none by (auto simp: image_iff)
  with assms show ?thesis
    by (simp add: shutdown_def shutdown_call_def)
qed

lemma shutdownAll_call_result:
  "shutdownAll_call this =
     (this\<lparr>models := [],
           trace := trace this @ (if models this = [] then [] else [Emitted []]) @ [ListRunningCall],
           seen := seen this @ (if models this = [] then [] else [([], tensorboards this)])\<rparr>,
      models this)"
  by (cases "models this") (simp_all add: shutdownAll_call_def refreshRunning_call_def emit_def)

lemma shutdownAll_settle_one_result:
  "shutdownAll_settle_one (Fulfilled u) this =
     (this\<lparr>trace := trace this @ map Disposed (tensorboards this), tensorboards := []\<rparr>,
      Fulfilled ())"
  "shutdownAll_settle_one (Rejected e) this = (this, Rejected e)"
  by (simp_all add: shutdownAll_settle_one_def shutdownAll_then_def dispose_and_remove_result)

lemma str_indexOf_range: "str_indexOf s pat = -1 \<or> 0 \<le> str_indexOf s pat"
  by (induction s) (auto simp: Let_def)

lemma str_indexOf_zero: "(str_indexOf s pat = 0) = prefix pat s"
proof (cases s)
  case Nil
  then show ?thesis by auto
next
  case (Cons c cs)
  with str_indexOf_range [of cs pat] show ?thesis
    by (auto simp: Let_def)
qed

lemma str_replace_prefix: "prefix pat s \<Longrightarrow> str_replace s pat rep = rep @ drop (length pat) s"
  by (cases s) auto

lemma formatDir_single:
  assumes "CHR '','' \<notin> set dir"
  shows "formatDir this dir =
     (case statusConfig this of
        None \<Rightarrow> dir
      | Some config \<Rightarrow>
          if notebook_dir config \<noteq> [] \<and> prefix (notebook_dir config) dir then
            (let rest = drop (length (notebook_dir config)) dir;
                 formatted = replace_leading_slash (if rest = [] then ''/'' else rest)
             in if formatted = [] then ''<workspace_root>'' else formatted)
          else dir)"
  using assms
  by (subst formatDir.simps)
     (simp add: str_includes_single str_indexOf_zero str_replace_prefix Let_def
        split: option.splits)

lemma str_split_no_sep_single: "sep \<notin> set s \<Longrightarrow> str_split s sep = [s]"
  by (induction s) auto

lemma str_split_label: "sep \<notin> set a \<Longrightarrow> sep \<notin> set b \<Longrightarrow> str_split (a @ sep # b) sep = [a, b]"
  by (induction a) (auto simp: str_split_no_sep_single)

lemma formatDir_multi:
  assumes "CHR '','' \<in> set dir"
  shows "formatDir this dir =
     join '',''
       (map (\<lambda>d. if CHR '':'' \<in> set d
                  then (str_split d CHR '':'' ! 0) @ '':'' @ formatDir this (str_split d CHR '':'' ! 1)
                  else formatDir this d)
            (str_split dir CHR '',''))"
  using assms
  by (subst formatDir.simps) (simp add: str_includes_single Let_def)

lemma formatDir_labelled_segment:
  assumes "CHR '':'' \<notin> set label" and "CHR '':'' \<notin> set path"
  shows "(str_split (label @ '':'' @ path) CHR '':'' ! 0) @ '':'' @
           formatDir this (str_split (label @ '':'' @ path) CHR '':'' ! 1)
         = label @ '':'' @ formatDir this path"
  using str_split_label [OF assms] by simp

lemma refreshRunning_then_changed:
  assumes "\<not> deepEqual ms (models this)"
  shows "refreshRunning_then ms this =
     this\<lparr>isReady := True,
          trace := trace this
            @ map Disposed (filter (\<lambda>t. tb_name t \<notin> set (map name ms)) (tensorboards this))
            @ [Emitted ms],
          tensorboards := filter (\<lambda>t. tb_name t \<in> set (map name ms)) (tensorboards this),
          models := ms,
          seen := seen this
            @ [(ms, filter (\<lambda>t. tb_name t \<in> set (map name ms)) (tensorboards this))]\<rparr>"
  using assms
  by (simp add: refreshRunning_then_def Let_def emit_def dispose_and_remove_result indexOf_none)

lemma refreshRunning_then_unchanged:
  "deepEqual ms (models this) \<Longrightarrow> refreshRunning_then ms this = this\<lparr>isReady := True\<rparr>"
  by (simp add: refreshRunning_then_def)

lemma shutdownAll_settle_all_result:
  "fst (shutdownAll_settle_all rs this) =
     (if Fulfilled () \<in> set rs
      then this\<lparr>trace := trace this @ map Disposed (tensorboards this), tensorboards := []\<rparr>
      else this)"
proof (induction rs arbitrary: this)
  case Nil
  then show ?case by simp
next
  case (Cons r rs)
  show ?case
  proof (cases r)
    case (Fulfilled u)
    let ?this1 = "this\<lparr>trace := trace this @ map Disposed (tensorboards this),
                       tensorboards := []\<rparr>"
    obtain this2 r2 where rest: "shutdownAll_settle_all rs ?this1 = (this2, r2)"
      by (cases "shutdownAll_settle_all rs ?this1")
    with Cons.IH [of ?this1] have "this2 = ?this1" by simp
    with Fulfilled rest show ?thesis
      by (simp add: shutdownAll_settle_one_result)
  next
    case (Rejected e)
    obtain this2 r2 where rest: "shutdownAll_settle_all rs this = (this2, r2)"
      by (cases "shutdownAll_settle_all rs this")
    with Cons.IH [of this] Rejected show ?thesis
      by (simp add: shutdownAll_settle_one_result)
  qed
qed

lemma shutdownAll_refreshed_trace:
  "trace (fst (shutdownAll_refreshed ms (Fulfilled listed) later)) =
     trace later
     @ (if deepEqual listed (models later) then []
        else map Disposed (filter (\<lambda>t. tb_name t \<notin> set (map name listed)) (tensorboards later))
             @ [Emitted listed])
     @ map (\<lambda>m. ShutdownCall (name m)) ms"
  by (simp add: shutdownAll_refreshed_def refreshRunning_settle_def refreshRunning_then_changed
      refreshRunning_then_unchanged)

lemma shutdownAll_refreshed_state:
  "models (fst (shutdownAll_refreshed ms (Fulfilled listed) later)) = listed
   \<and> tensorboards (fst (shutdownAll_refreshed ms (Fulfilled listed) later)) =
       (if deepEqual listed (models later) then tensorboards later
        else filter (\<lambda>t. tb_name t \<in> set (map name listed)) (tensorboards later))"
  by (auto simp: shutdownAll_refreshed_def refreshRunning_settle_def refreshRunning_then_changed
      refreshRunning_then_unchanged deepEqual_def)

section \<open>Properties of the manager\<close>

text \<open>
  Claim C3. For every name present in \<^verbatim>\<open>models\<close>, the synchronous part of
  \<^verbatim>\<open>shutdown(name)\<close> removes the (first) entry of that name from \<^verbatim>\<open>models\<close>, emits the
  change event with the new snapshot and only then issues the remote shutdown call; when
  this part ends the returned promise is still pending. With unique names in \<^verbatim>\<open>models\<close>,
  the name is no longer in \<^verbatim>\<open>models\<close> at that point.
\<close>

theorem shutdown_removes_before_remote_call:
  assumes "nm \<in> set (map name (models this))"
  shows "snd (shutdown_call nm this) = None
    \<and> models (fst (shutdown_call nm this)) =
        takeWhile (\<lambda>m. name m \<noteq> nm) (models this) @ tl (dropWhile (\<lambda>m. name m \<noteq> nm) (models this))
    \<and> Suc (length (models (fst (shutdown_call nm this)))) = length (models this)
    \<and> trace (fst (shutdown_call nm this)) =
        trace this @ [Emitted (models (fst (shutdown_call nm this))), ShutdownCall nm]
    \<and> (unique_names this \<longrightarrow> nm \<notin> set (map name (models (fst (shutdown_call nm this)))))"
proof -
  from assms have ex: "\<exists>m \<in> set (models this). name m = nm" by auto
  have len: "Suc (length (takeWhile (\<lambda>m. name m \<noteq> nm) (models this)
      @ tl (dropWhile (\<lambda>m. name m \<noteq> nm) (models this)))) = length (models this)"
    using first_removed_length [of "models this" "\<lambda>m. name m = nm", OF ex] by simp
  have uniq: "unique_names this \<Longrightarrow>
      nm \<notin> name ` set (takeWhile (\<lambda>m. name m \<noteq> nm) (models this)
                         @ tl (dropWhile (\<lambda>m. name m \<noteq> nm) (models this)))"
    using first_removed_names [of name "models this" nm] ex by (simp add: unique_names_def)
  from uniq have uniq': "unique_names this \<longrightarrow>
      nm \<notin> set (map name (takeWhile (\<lambda>m. name m \<noteq> nm) (models this)
                         @ tl (dropWhile (\<lambda>m. name m \<noteq> nm) (models this))))"
    by auto
  show ?thesis
    unfolding shutdown_call_present [OF assms] using len uniq' by simp
qed

theorem shutdown_removes_before_remote_call_witness:
  "''tb1'' \<in> set (map name (models running1))
   \<and> unique_names running1
   \<and> snd (shutdown_call ''tb1'' running1) = None
   \<and> models (fst (shutdown_call ''tb1'' running1)) = []
   \<and> trace (fst (shutdown_call ''tb1'' running1)) = [Emitted [], ShutdownCall ''tb1'']
   \<and> ''tb1'' \<notin> set (map name (models (fst (shutdown_call ''tb1'' running1))))"
proof -
  have h: "''tb1'' \<in> set (map name (models running1))"
    by (simp add: example_defs)
  have u: "unique_names running1"
    by (simp add: unique_names_def example_defs)
  have m: "models running1 = [tb1]" "trace running1 = []" "name tb1 = ''tb1''"
    by (simp_all add: example_defs)
  from shutdown_removes_before_remote_call [OF h] u h m show ?thesis
    by simp
qed

text \<open>
  Claim C1. When the poll of \<^verbatim>\<open>refreshRunning\<close> has fetched the list \<open>ms\<close>, a change
  event is emitted if and only if \<open>ms\<close> is not deep-equal to the cached \<^verbatim>\<open>models\<close>, and
  then it is the single event carrying \<open>ms\<close>; when the two are deep-equal, \<^verbatim>\<open>models\<close>,
  the handle set, the subscribers and the whole trace of effects are left as they were.
\<close>

theorem refreshRunning_emits_iff_changed:
  "emitted (trace (fst (refreshRunning_settle (Fulfilled ms) this))) =
     emitted (trace this) @ (if deepEqual ms (models this) then [] else [ms])
   \<and> (deepEqual ms (models this) \<longrightarrow>
        models (fst (refreshRunning_settle (Fulfilled ms) this)) = models this
        \<and> tensorboards (fst (refreshRunning_settle (Fulfilled ms) this)) = tensorboards this
        \<and> receivers (fst (refreshRunning_settle (Fulfilled ms) this)) = receivers this
        \<and> trace (fst (refreshRunning_settle (Fulfilled ms) this)) = trace this)
   \<and> (\<not> deepEqual ms (models this) \<longrightarrow>
        models (fst (refreshRunning_settle (Fulfilled ms) this)) = ms)
   \<and> snd (refreshRunning_settle (Fulfilled ms) this) = Fulfilled ()"
  by (simp add: refreshRunning_settle_def refreshRunning_then_def Let_def emit_def
      dispose_and_remove_result emitted_append emitted_Disposed)

theorem refreshRunning_emits_iff_changed_witness:
  "deepEqual [tb1] (models running1)
   \<and> emitted (trace (fst (refreshRunning_settle (Fulfilled [tb1]) running1))) = []
   \<and> tensorboards (fst (refreshRunning_settle (Fulfilled [tb1]) running1)) = [handle1]
   \<and> \<not> deepEqual [] (models running1)
   \<and> emitted (trace (fst (refreshRunning_settle (Fulfilled []) running1))) = [[]]
   \<and> models (fst (refreshRunning_settle (Fulfilled []) running1)) = []"
proof -
  have eq: "deepEqual [tb1] (models running1)" and ne: "\<not> deepEqual [] (models running1)"
    by (simp_all add: deepEqual_def example_defs)
  have st: "trace running1 = []" "tensorboards running1 = [handle1]"
    by (simp_all add: example_defs)
  from refreshRunning_emits_iff_changed [of "[tb1]" running1]
    refreshRunning_emits_iff_changed [of "[]" running1] eq ne st
  show ?thesis by simp
qed

text \<open>
  Claim C6. When the backend's \<^verbatim>\<open>listRunning\<close> call fails, \<^verbatim>\<open>refreshRunning\<close> rejects
  with that failure and leaves the manager as it was at the time of the failure: over
  the whole call, \<^verbatim>\<open>models\<close> and the handle set are unchanged, no change event is
  emitted and no handle is disposed.
\<close>

theorem refreshRunning_failure_changes_nothing:
  "refreshRunning_settle (Rejected e) this = (this, Rejected e)
   \<and> snd (refreshRunning (Rejected e) this) = Rejected e
   \<and> models (fst (refreshRunning (Rejected e) this)) = models this
   \<and> tensorboards (fst (refreshRunning (Rejected e) this)) = tensorboards this
   \<and> emitted (trace (fst (refreshRunning (Rejected e) this))) = emitted (trace this)
   \<and> disposals (trace (fst (refreshRunning (Rejected e) this))) = disposals (trace this)"
  by (simp add: refreshRunning_def refreshRunning_settle_def refreshRunning_call_def
      emitted_append disposals_append)

text \<open>
  Claim C4, as stated, fails: \<^verbatim>\<open>shutdown\<close> attaches its cleanup with \<^verbatim>\<open>then\<close> and a
  success callback only. With the instance \<^verbatim>\<open>tb1\<close> running and held, a remote shutdown
  that fails makes \<^verbatim>\<open>shutdown\<close> reject with the backend failure, and the handle named
  \<^verbatim>\<open>tb1\<close> stays in the handle set, undisposed.
\<close>

theorem shutdown_failure_propagates_counterexample:
  "snd (shutdown ''tb1'' (Rejected BackendError) running1) = Rejected BackendError
   \<and> tensorboards (fst (shutdown ''tb1'' (Rejected BackendError) running1)) = [handle1]
   \<and> tb_name handle1 = ''tb1''
   \<and> disposals (trace (fst (shutdown ''tb1'' (Rejected BackendError) running1))) = []
   \<and> ''tb1'' \<in> set (map name (models running1))"
  by (simp add: shutdown_def shutdown_call_def shutdown_settle_def emit_def splice_def
      tb_name_def Let_def example_defs)

text \<open>
  Claim C4, amended. For every name present in \<^verbatim>\<open>models\<close>: when the remote shutdown call
  succeeds, \<^verbatim>\<open>shutdown\<close> resolves and every handle with that name is disposed and
  removed from the handle set once the call settles (also when other operations ran in
  between, state \<open>later\<close>); when the remote call fails, \<^verbatim>\<open>shutdown\<close> rejects with the
  backend failure and no handle is disposed or removed, while \<^verbatim>\<open>models\<close> keeps the
  optimistic removal.
\<close>

theorem shutdown_disposes_on_success:
  assumes "nm \<in> set (map name (models this))"
  shows "snd (shutdown nm (Fulfilled ()) this) = Fulfilled ()
    \<and> tensorboards (fst (shutdown nm (Fulfilled ()) this)) =
        filter (\<lambda>t. tb_name t \<noteq> nm) (tensorboards this)
    \<and> disposals (trace (fst (shutdown nm (Fulfilled ()) this))) =
        disposals (trace this) @ filter (\<lambda>t. tb_name t = nm) (tensorboards this)
    \<and> models (fst (shutdown nm (Fulfilled ()) this)) = models (fst (shutdown_call nm this))
    \<and> snd (shutdown nm (Rejected e) this) = Rejected e
    \<and> fst (shutdown nm (Rejected e) this) = fst (shutdown_call nm this)
    \<and> tensorboards (fst (shutdown nm (Rejected e) this)) = tensorboards this
    \<and> disposals (trace (fst (shutdown nm (Rejected e) this))) = disposals (trace this)
    \<and> tensorboards (fst (shutdown_settle nm (Fulfilled ()) later)) =
        filter (\<lambda>t. tb_name t \<noteq> nm) (tensorboards later)
    \<and> disposals (trace (fst (shutdown_settle nm (Fulfilled ()) later))) =
        disposals (trace later) @ filter (\<lambda>t. tb_name t = nm) (tensorboards later)
    \<and> shutdown_settle nm (Rejected e) later = (later, Rejected e)"
  by (simp add: shutdown_def shutdown_call_present [OF assms] shutdown_settle_def
      shutdown_then_result disposals_append disposals_Disposed)

theorem shutdown_disposes_on_success_witness:
  "''tb1'' \<in> set (map name (models running1))
   \<and> snd (shutdown ''tb1'' (Fulfilled ()) running1) = Fulfilled ()
   \<and> tensorboards (fst (shutdown ''tb1'' (Fulfilled ()) running1)) = []
   \<and> disposals (trace (fst (shutdown ''tb1'' (Fulfilled ()) running1))) = [handle1]"
proof -
  have h: "''tb1'' \<in> set (map name (models running1))"
    by (simp add: example_defs)
  have st: "tensorboards running1 = [handle1]" "trace running1 = []" "tb_name handle1 = ''tb1''"
    by (simp_all add: tb_name_def example_defs)
  from shutdown_disposes_on_success [OF h] h st show ?thesis
    by simp
qed

text \<open>
  Claim C7. When \<^verbatim>\<open>Tensorboard.startNew\<close> has fulfilled with the handle \<open>t\<close>, \<^verbatim>\<open>startNew\<close>
  resolves with \<open>t\<close> and \<open>t\<close> is in the handle set. If the name of \<open>t\<close> was not in
  \<^verbatim>\<open>models\<close>, its model is appended and one change event with the new snapshot fires;
  if the name was already there, \<^verbatim>\<open>models\<close> is unchanged and no change event fires.
  With unique names in \<^verbatim>\<open>models\<close> before, names stay unique and \<^verbatim>\<open>models\<close> holds exactly
  one entry of that name afterwards.
\<close>

theorem startNew_adds_handle_and_model_once:
  "snd (startNew_settle (Fulfilled t) this) = Fulfilled t
   \<and> set (tensorboards (fst (startNew_settle (Fulfilled t) this))) = insert t (set (tensorboards this))
   \<and> (tb_name t \<notin> set (map name (models this)) \<longrightarrow>
        models (fst (startNew_settle (Fulfilled t) this)) = models this @ [model t]
        \<and> emitted (trace (fst (startNew_settle (Fulfilled t) this))) =
            emitted (trace this) @ [models this @ [model t]])
   \<and> (tb_name t \<in> set (map name (models this)) \<longrightarrow>
        models (fst (startNew_settle (Fulfilled t) this)) = models this
        \<and> emitted (trace (fst (startNew_settle (Fulfilled t) this))) = emitted (trace this))
   \<and> (unique_names this \<longrightarrow>
        unique_names (fst (startNew_settle (Fulfilled t) this))
        \<and> length (filter (\<lambda>m. name m = tb_name t)
                    (models (fst (startNew_settle (Fulfilled t) this)))) = 1)"
proof (cases "tb_name t \<in> set (map name (models this))")
  case True
  then have "unique_names this \<Longrightarrow> length (filter (\<lambda>m. name m = tb_name t) (models this)) = 1"
    unfolding unique_names_def by (rule count_unique_name [rotated])
  with True show ?thesis
    by (simp add: startNew_settle_def onStarted_result set_set_add emitted_append unique_names_def)
next
  case False
  then have "filter (\<lambda>m. name m = tb_name t) (models this) = []"
    unfolding filter_empty_conv by (auto simp: image_iff)
  with False show ?thesis
    by (simp add: startNew_settle_def onStarted_result set_set_add emitted_append unique_names_def
        tb_name_def)
qed

theorem startNew_adds_handle_and_model_once_witness:
  "tb_name handle1' \<in> set (map name (models running1)) \<and> unique_names running1
   \<and> models (fst (startNew_settle (Fulfilled handle1') running1)) = [tb1]
   \<and> emitted (trace (fst (startNew_settle (Fulfilled handle1') running1))) = []
   \<and> tb_name handle1 \<notin> set (map name (models idle))
   \<and> models (fst (startNew_settle (Fulfilled handle1) idle)) = [tb1]
   \<and> emitted (trace (fst (startNew_settle (Fulfilled handle1) idle))) = [[tb1]]"
proof -
  have a: "tb_name handle1' \<in> set (map name (models running1))"
    and b: "tb_name handle1 \<notin> set (map name (models idle))"
    and u: "unique_names running1"
    by (simp_all add: tb_name_def unique_names_def example_defs)
  have st: "models running1 = [tb1]" "trace running1 = []" "models idle = []" "trace idle = []"
    "model handle1 = tb1"
    by (simp_all add: example_defs)
  from startNew_adds_handle_and_model_once [of handle1' running1]
    startNew_adds_handle_and_model_once [of handle1 idle] a b u st
  show ?thesis by simp
qed

text \<open>
  Claim C10. Two successful \<^verbatim>\<open>startNew\<close> calls that return two distinct handle objects
  of one name leave both handles in the handle set (appended in this order when neither
  was held before), while \<^verbatim>\<open>models\<close> holds a single entry of that name.
\<close>

theorem startNew_twice_keeps_two_handles:
  assumes "t1 \<noteq> t2" and "tb_name t1 = tb_name t2" and "unique_names this"
  shows "set (tensorboards (fst (startNew_settle (Fulfilled t2)
                (fst (startNew_settle (Fulfilled t1) this))))) = {t1, t2} \<union> set (tensorboards this)
    \<and> length (filter (\<lambda>m. name m = tb_name t1)
          (models (fst (startNew_settle (Fulfilled t2)
                (fst (startNew_settle (Fulfilled t1) this)))))) = 1
    \<and> (t1 \<notin> set (tensorboards this) \<and> t2 \<notin> set (tensorboards this) \<longrightarrow>
        tensorboards (fst (startNew_settle (Fulfilled t2)
                (fst (startNew_settle (Fulfilled t1) this)))) = tensorboards this @ [t1, t2])"
proof -
  let ?s1 = "onStarted t1 this"
  let ?s2 = "onStarted t2 ?s1"
  have present: "tb_name t2 \<in> set (map name (models ?s1))"
    using assms(2) by (simp add: onStarted_result tb_name_def)
  have uniq1: "unique_names ?s1"
    using assms(3) by (simp add: onStarted_result unique_names_def tb_name_def)
  have models2: "models ?s2 = models ?s1"
    using present by (simp add: onStarted_result [of t2])
  have "length (filter (\<lambda>m. name m = tb_name t2) (models ?s1)) = 1"
    using uniq1 present unfolding unique_names_def by (rule count_unique_name)
  then have one: "length (filter (\<lambda>m. name m = tb_name t1) (models ?s2)) = 1"
    using models2 assms(2) by simp
  have handles: "tensorboards ?s2 = set_add t2 (set_add t1 (tensorboards this))"
    by (simp add: tensorboards_onStarted)
  then have both: "set (tensorboards ?s2) = {t1, t2} \<union> set (tensorboards this)"
    by (auto simp: set_set_add)
  have fresh: "t1 \<notin> set (tensorboards this) \<and> t2 \<notin> set (tensorboards this) \<longrightarrow>
      tensorboards ?s2 = tensorboards this @ [t1, t2]"
    using assms(1) handles by (auto simp: set_add_def)
  from both one fresh show ?thesis
    by (simp add: startNew_settle_def)
qed

theorem startNew_twice_keeps_two_handles_witness:
  "handle1 \<noteq> handle1' \<and> tb_name handle1 = tb_name handle1' \<and> unique_names idle
   \<and> tensorboards (fst (startNew_settle (Fulfilled handle1')
          (fst (startNew_settle (Fulfilled handle1) idle)))) = [handle1, handle1']
   \<and> length (filter (\<lambda>m. name m = tb_name handle1)
          (models (fst (startNew_settle (Fulfilled handle1')
                (fst (startNew_settle (Fulfilled handle1) idle)))))) = 1"
proof -
  have a: "handle1 \<noteq> handle1'" and b: "tb_name handle1 = tb_name handle1'"
    and u: "unique_names idle"
    by (simp_all add: tb_name_def unique_names_def example_defs)
  have st: "tensorboards idle = []"
    by (simp add: example_defs)
  from startNew_twice_keeps_two_handles [OF a b u] a b u st show ?thesis
    by simp
qed

text \<open>
  Claim C2, as stated, fails: \<^verbatim>\<open>_onTerminated\<close> removes the entry from \<^verbatim>\<open>models\<close> and
  leaves the handle set alone. After a successful start of \<^verbatim>\<open>tb1\<close> every handle has
  its name in \<^verbatim>\<open>models\<close>; once the termination notification of \<^verbatim>\<open>tb1\<close> has been
  processed, the handle named \<^verbatim>\<open>tb1\<close> is still held while \<^verbatim>\<open>models\<close> is empty.
  The same holds when the synchronous part of \<^verbatim>\<open>shutdown\<close> has emitted its change
  event, whose slots find the handle held and \<^verbatim>\<open>models\<close> empty.
\<close>

theorem onTerminated_keeps_handle_counterexample:
  "handles_in_models (onStarted handle1 idle)
   \<and> tensorboards (onTerminated ''tb1'' (onStarted handle1 idle)) = [handle1]
   \<and> tb_name handle1 = ''tb1''
   \<and> models (onTerminated ''tb1'' (onStarted handle1 idle)) = []
   \<and> \<not> handles_in_models (onTerminated ''tb1'' (onStarted handle1 idle))
   \<and> \<not> handles_in_models (fst (shutdown_call ''tb1'' (onStarted handle1 idle)))
   \<and> seen (fst (shutdown_call ''tb1'' (onStarted handle1 idle))) =
       [([tb1], [handle1]), ([], [handle1])]"
  by (simp add: handles_in_models_def onTerminated_def onStarted_def shutdown_call_def emit_def
      set_add_def splice_def tb_name_def Let_def example_defs)

text \<open>
  Claim C2, amended. A poll of \<^verbatim>\<open>refreshRunning\<close> that detects a change disposes every
  handle whose name is absent from the fetched list, removes it from the handle set and
  replaces \<^verbatim>\<open>models\<close>, all before it emits the change event: the disposals precede the
  event in the trace, and the slots of the event find the fetched list and the cleaned
  handle set (the entry added to \<open>seen\<close>), so that every handle held has a name in
  \<^verbatim>\<open>models\<close>. A poll that detects no change, a successful \<^verbatim>\<open>startNew\<close> and a whole
  \<^verbatim>\<open>shutdown\<close> whose remote call succeeded preserve that every handle held has a name in
  \<^verbatim>\<open>models\<close>. The cleanup after each successful remote shutdown of \<^verbatim>\<open>shutdownAll\<close>
  disposes every handle held and leaves the handle set empty.
\<close>

theorem handles_in_models_reconciled:
  "(\<not> deepEqual ms (models this) \<longrightarrow>
      refreshRunning_settle (Fulfilled ms) this =
        (this\<lparr>isReady := True,
               trace := trace this
                 @ map Disposed (filter (\<lambda>t. tb_name t \<notin> set (map name ms)) (tensorboards this))
                 @ [Emitted ms],
               tensorboards := filter (\<lambda>t. tb_name t \<in> set (map name ms)) (tensorboards this),
               models := ms,
               seen := seen this
                 @ [(ms, filter (\<lambda>t. tb_name t \<in> set (map name ms)) (tensorboards this))]\<rparr>,
         Fulfilled ())
      \<and> handles_in_models (fst (refreshRunning_settle (Fulfilled ms) this)))
   \<and> (deepEqual ms (models this) \<and> handles_in_models this \<longrightarrow>
        handles_in_models (fst (refreshRunning_settle (Fulfilled ms) this)))
   \<and> (handles_in_models this \<longrightarrow> handles_in_models (fst (startNew_settle (Fulfilled t) this)))
   \<and> (handles_in_models this \<longrightarrow> handles_in_models (fst (shutdown nm (Fulfilled ()) this)))
   \<and> shutdownAll_settle_one (Fulfilled ()) this =
        (this\<lparr>trace := trace this @ map Disposed (tensorboards this), tensorboards := []\<rparr>,
         Fulfilled ())
   \<and> handles_in_models (fst (shutdownAll_settle_one (Fulfilled ()) this))"
proof -
  have changed: "\<not> deepEqual ms (models this) \<Longrightarrow>
      refreshRunning_settle (Fulfilled ms) this =
        (this\<lparr>isReady := True,
               trace := trace this
                 @ map Disposed (filter (\<lambda>t. tb_name t \<notin> set (map name ms)) (tensorboards this))
                 @ [Emitted ms],
               tensorboards := filter (\<lambda>t. tb_name t \<in> set (map name ms)) (tensorboards this),
               models := ms,
               seen := seen this
                 @ [(ms, filter (\<lambda>t. tb_name t \<in> set (map name ms)) (tensorboards this))]\<rparr>,
         Fulfilled ())"
    by (simp add: refreshRunning_settle_def refreshRunning_then_changed)
  have poll: "handles_in_models this \<or> \<not> deepEqual ms (models this) \<Longrightarrow>
      handles_in_models (fst (refreshRunning_settle (Fulfilled ms) this))"
    using handles_in_models_refreshRunning_then [of this ms]
    by (simp add: refreshRunning_settle_def)
  have start: "handles_in_models this \<Longrightarrow>
      handles_in_models (fst (startNew_settle (Fulfilled t) this))"
    using handles_in_models_onStarted [of this t] by (simp add: startNew_settle_def)
  have all: "handles_in_models (fst (shutdownAll_settle_one (Fulfilled ()) this))"
    by (simp add: shutdownAll_settle_one_result handles_in_models_def)
  have one: "shutdownAll_settle_one (Fulfilled ()) this =
      (this\<lparr>trace := trace this @ map Disposed (tensorboards this), tensorboards := []\<rparr>,
       Fulfilled ())"
    by (simp add: shutdownAll_settle_one_result)
  from changed poll start handles_in_models_shutdown [of this nm] one all show ?thesis
    by blast
qed

theorem handles_in_models_reconciled_witness:
  "\<not> handles_in_models (onTerminated ''tb1'' running1)
   \<and> \<not> deepEqual [tb2] (models (onTerminated ''tb1'' running1))
   \<and> trace (fst (refreshRunning_settle (Fulfilled [tb2]) (onTerminated ''tb1'' running1))) =
       [Emitted [], Disposed handle1, Emitted [tb2]]
   \<and> seen (fst (refreshRunning_settle (Fulfilled [tb2]) (onTerminated ''tb1'' running1))) =
       [([], [handle1]), ([tb2], [])]
   \<and> handles_in_models (fst (refreshRunning_settle (Fulfilled [tb2]) (onTerminated ''tb1'' running1)))
   \<and> handles_in_models running1
   \<and> deepEqual [tb1] (models running1)
   \<and> handles_in_models (fst (refreshRunning_settle (Fulfilled [tb1]) running1))
   \<and> handles_in_models (fst (startNew_settle (Fulfilled handle1') running1))
   \<and> handles_in_models (fst (shutdown ''tb1'' (Fulfilled ()) running1))
   \<and> tensorboards (fst (shutdownAll_settle_one (Fulfilled ()) running1)) = []
   \<and> trace (fst (shutdownAll_settle_one (Fulfilled ()) running1)) = [Disposed handle1]"
proof -
  have a: "\<not> handles_in_models (onTerminated ''tb1'' running1)"
    and b: "\<not> deepEqual [tb2] (models (onTerminated ''tb1'' running1))"
    and c: "handles_in_models running1"
    and d: "deepEqual [tb1] (models running1)"
    by (simp_all add: handles_in_models_def deepEqual_def onTerminated_def emit_def splice_def
        tb_name_def Let_def example_defs)
  have st: "trace (onTerminated ''tb1'' running1) = [Emitted []]"
    "seen (onTerminated ''tb1'' running1) = [([], [handle1])]"
    "tensorboards (onTerminated ''tb1'' running1) = [handle1]"
    "tb_name handle1 = ''tb1''" "name tb2 = ''tb2''"
    "tensorboards running1 = [handle1]" "trace running1 = []"
    by (simp_all add: onTerminated_def emit_def splice_def tb_name_def Let_def example_defs)
  from handles_in_models_reconciled [of "[tb2]" "onTerminated ''tb1'' running1"]
    handles_in_models_reconciled [of "[tb1]" running1 handle1' "''tb1''"] a b c d st
  show ?thesis by (simp add: handles_in_models_def)
qed

text \<open>
  Claim C5, as stated, fails: between the batch event and the remote shutdowns,
  \<^verbatim>\<open>shutdownAll\<close> itself polls the backend with \<^verbatim>\<open>_refreshRunning\<close>. With \<^verbatim>\<open>tb1\<close>
  running and the backend still listing it, the batch event is followed by a second
  change event that puts \<^verbatim>\<open>tb1\<close> back into \<^verbatim>\<open>models\<close> before the remote shutdown is
  issued; and with \<^verbatim>\<open>models\<close> empty and the backend listing \<^verbatim>\<open>tb1\<close>, a change event
  is emitted although there was no batch.
\<close>

theorem shutdownAll_polls_again_counterexample:
  "trace (fst (shutdownAll (Fulfilled [tb1]) [Fulfilled ()] running1)) =
     [Emitted [], ListRunningCall, Emitted [tb1], ShutdownCall ''tb1'', Disposed handle1]
   \<and> models (fst (shutdownAll (Fulfilled [tb1]) [Fulfilled ()] running1)) = [tb1]
   \<and> models idle = []
   \<and> emitted (trace (fst (shutdownAll (Fulfilled [tb1]) [] idle))) = [[tb1]]"
  by (simp add: shutdownAll_def shutdownAll_call_def shutdownAll_refreshed_def
      refreshRunning_call_def refreshRunning_settle_def refreshRunning_then_def
      shutdownAll_settle_one_def shutdownAll_then_def dispose_and_remove_def set_delete_def
      tb_dispose_def deepEqual_def indexOf_def emit_def tb_name_def Let_def example_defs)

text \<open>
  Claim C5, amended. Over a whole call of \<^verbatim>\<open>shutdownAll\<close> with nothing else running in
  between, the effects are, in this order: when \<^verbatim>\<open>models\<close> is non-empty, it is cleared
  and one change event with the empty list is emitted (none when it is empty); the
  backend is polled; when the poll fails, \<^verbatim>\<open>shutdownAll\<close> rejects and nothing more
  happens; when it succeeds with a non-empty list, the handles absent from that list are
  disposed and a further change event with that list is emitted, which puts the list
  back into \<^verbatim>\<open>models\<close> (an empty list emits nothing); then exactly one remote shutdown
  is issued per captured entry, in the captured order; and the first remote shutdown
  that succeeds disposes and removes every handle still held. No event is emitted after
  the poll's. The first five conjuncts give the same for the single steps, for any state
  \<open>later\<close> in which the poll or a remote shutdown settles, with \<open>ms\<close> the content of the
  captured array at that time.
\<close>

theorem shutdownAll_batch_then_poll:
  "shutdownAll_call this =
     (this\<lparr>models := [],
           trace := trace this @ (if models this = [] then [] else [Emitted []]) @ [ListRunningCall],
           seen := seen this @ (if models this = [] then [] else [([], tensorboards this)])\<rparr>,
      models this)
   \<and> trace (fst (shutdownAll_refreshed ms (Fulfilled listed) later)) =
       trace later
       @ (if deepEqual listed (models later) then []
          else map Disposed (filter (\<lambda>t. tb_name t \<notin> set (map name listed)) (tensorboards later))
               @ [Emitted listed])
       @ map (\<lambda>m. ShutdownCall (name m)) ms
   \<and> shutdownAll_refreshed ms (Rejected e) later = (later, Some (Rejected e))
   \<and> shutdownAll_settle_one (Fulfilled ()) later =
       (later\<lparr>trace := trace later @ map Disposed (tensorboards later), tensorboards := []\<rparr>,
        Fulfilled ())
   \<and> shutdownAll_settle_one (Rejected e) later = (later, Rejected e)
   \<and> shutdownAll (Rejected e) results this = (fst (shutdownAll_call this), Rejected e)
   \<and> trace (fst (shutdownAll (Fulfilled listed) results this)) =
       trace this
       @ (if models this = [] then [] else [Emitted []])
       @ [ListRunningCall]
       @ (if listed = [] then []
          else map Disposed (filter (\<lambda>t. tb_name t \<notin> set (map name listed)) (tensorboards this))
               @ [Emitted listed])
       @ map (\<lambda>m. ShutdownCall (name m)) (models this)
       @ (if Fulfilled () \<in> set (take (length (models this)) results)
          then map Disposed
                 (if listed = [] then tensorboards this
                  else filter (\<lambda>t. tb_name t \<in> set (map name listed)) (tensorboards this))
          else [])
   \<and> models (fst (shutdownAll (Fulfilled listed) results this)) = listed
   \<and> tensorboards (fst (shutdownAll (Fulfilled listed) results this)) =
       (if Fulfilled () \<in> set (take (length (models this)) results) then []
        else if listed = [] then tensorboards this
        else filter (\<lambda>t. tb_name t \<in> set (map name listed)) (tensorboards this))"
proof -
  let ?s1 = "fst (shutdownAll_call this)"
  let ?s2 = "fst (shutdownAll_refreshed (models this) (Fulfilled listed) ?s1)"
  let ?rs = "take (length (models this)) results"
  have s1: "models ?s1 = []" "tensorboards ?s1 = tensorboards this"
    "trace ?s1 = trace this @ (if models this = [] then [] else [Emitted []]) @ [ListRunningCall]"
    by (simp_all add: shutdownAll_call_result)
  have s2_trace: "trace ?s2 =
      trace this @ (if models this = [] then [] else [Emitted []]) @ [ListRunningCall]
      @ (if listed = [] then []
         else map Disposed (filter (\<lambda>t. tb_name t \<notin> set (map name listed)) (tensorboards this))
              @ [Emitted listed])
      @ map (\<lambda>m. ShutdownCall (name m)) (models this)"
    by (simp add: shutdownAll_refreshed_trace s1 deepEqual_def)
  have s2_state: "models ?s2 = listed"
    "tensorboards ?s2 = (if listed = [] then tensorboards this
        else filter (\<lambda>t. tb_name t \<in> set (map name listed)) (tensorboards this))"
    using shutdownAll_refreshed_state [of "models this" listed ?s1]
    by (simp_all add: s1 deepEqual_def)
  have whole: "fst (shutdownAll (Fulfilled listed) results this) =
      fst (shutdownAll_settle_all ?rs ?s2)"
    by (cases "models this = []")
       (simp_all add: shutdownAll_def shutdownAll_call_result shutdownAll_refreshed_def
          refreshRunning_settle_def split: prod.splits)
  have final: "fst (shutdownAll (Fulfilled listed) results this) =
      (if Fulfilled () \<in> set ?rs
       then ?s2\<lparr>trace := trace ?s2 @ map Disposed (tensorboards ?s2), tensorboards := []\<rparr>
       else ?s2)"
    unfolding whole by (rule shutdownAll_settle_all_result)
  have whole_trace: "trace (fst (shutdownAll (Fulfilled listed) results this)) =
       trace this
       @ (if models this = [] then [] else [Emitted []])
       @ [ListRunningCall]
       @ (if listed = [] then []
          else map Disposed (filter (\<lambda>t. tb_name t \<notin> set (map name listed)) (tensorboards this))
               @ [Emitted listed])
       @ map (\<lambda>m. ShutdownCall (name m)) (models this)
       @ (if Fulfilled () \<in> set ?rs
          then map Disposed
                 (if listed = [] then tensorboards this
                  else filter (\<lambda>t. tb_name t \<in> set (map name listed)) (tensorboards this))
          else [])"
    unfolding final using s2_trace s2_state by simp
  have whole_models: "models (fst (shutdownAll (Fulfilled listed) results this)) = listed"
    unfolding final using s2_state by simp
  have whole_handles: "tensorboards (fst (shutdownAll (Fulfilled listed) results this)) =
       (if Fulfilled () \<in> set ?rs then []
        else if listed = [] then tensorboards this
        else filter (\<lambda>t. tb_name t \<in> set (map name listed)) (tensorboards this))"
    unfolding final using s2_state by simp
  have failed: "shutdownAll (Rejected e) results this = (fst (shutdownAll_call this), Rejected e)"
    by (simp add: shutdownAll_def shutdownAll_call_result shutdownAll_refreshed_def
        refreshRunning_settle_def)
  have refreshed_failed: "shutdownAll_refreshed ms (Rejected e) later = (later, Some (Rejected e))"
    by (simp add: shutdownAll_refreshed_def refreshRunning_settle_def)
  from shutdownAll_call_result [of this] shutdownAll_refreshed_trace [of ms listed later]
    refreshed_failed shutdownAll_settle_one_result(1) [of "()" later]
    shutdownAll_settle_one_result(2) [of e later] failed whole_trace whole_models whole_handles
  show ?thesis by blast
qed

theorem shutdownAll_batch_then_poll_witness:
  "shutdownAll_call running1 =
     (running1\<lparr>models := [], trace := [Emitted [], ListRunningCall],
               seen := [([], [handle1])]\<rparr>, [tb1])
   \<and> trace (fst (shutdownAll (Fulfilled [tb2]) [Fulfilled ()] running1)) =
       [Emitted [], ListRunningCall, Disposed handle1, Emitted [tb2], ShutdownCall ''tb1'']
   \<and> models (fst (shutdownAll (Fulfilled [tb2]) [Fulfilled ()] running1)) = [tb2]
   \<and> tensorboards (fst (shutdownAll (Fulfilled [tb2]) [Fulfilled ()] running1)) = []
   \<and> trace (fst (shutdownAll (Fulfilled []) [Fulfilled ()] running1)) =
       [Emitted [], ListRunningCall, ShutdownCall ''tb1'', Disposed handle1]
   \<and> shutdownAll (Rejected BackendError) [] running1 =
       (running1\<lparr>models := [], trace := [Emitted [], ListRunningCall],
                 seen := [([], [handle1])]\<rparr>, Rejected BackendError)"
proof -
  have st: "models running1 = [tb1]" "trace running1 = []" "seen running1 = []"
    "tensorboards running1 = [handle1]" "name tb1 = ''tb1''" "name tb2 = ''tb2''"
    "tb_name handle1 = ''tb1''"
    by (simp_all add: tb_name_def example_defs)
  from shutdownAll_batch_then_poll [of running1 "[]" "[tb2]" running1 BackendError "[Fulfilled ()]"]
    shutdownAll_batch_then_poll [of running1 "[]" "[]" running1 BackendError "[]"]
    shutdownAll_batch_then_poll [of running1 "[]" "[]" running1 BackendError "[Fulfilled ()]"]
    st
  show ?thesis by simp
qed

text \<open>
  Claim C8. With a configured, non-empty workspace root and a directory string without
  a comma: when the string starts with the root, \<^verbatim>\<open>formatDir\<close> strips the root and one
  leading slash, and returns \<^verbatim>\<open><workspace_root>\<close> when nothing is left (in particular
  when the string is the root itself); so a directory \<open>sub\<close> below the root is
  rendered as \<open>sub\<close>. When the string does not start with the root it is returned
  unchanged.
\<close>

theorem formatDir_single_directory:
  assumes "statusConfig this = Some config" and "notebook_dir config = root" and "root \<noteq> []"
    and "CHR '','' \<notin> set dir"
  shows "(prefix root dir \<longrightarrow>
            formatDir this dir =
              (if replace_leading_slash (drop (length root) dir) = [] then ''<workspace_root>''
               else replace_leading_slash (drop (length root) dir)))
    \<and> (dir = root \<longrightarrow> formatDir this dir = ''<workspace_root>'')
    \<and> (\<forall>sub. dir = root @ ''/'' @ sub \<and> sub \<noteq> [] \<longrightarrow> formatDir this dir = sub)
    \<and> (\<not> prefix root dir \<longrightarrow> formatDir this dir = dir)"
proof -
  have "replace_leading_slash ''/'' = []" by simp
  then show ?thesis
    using assms by (auto simp: formatDir_single Let_def)
qed

theorem formatDir_single_directory_witness:
  "statusConfig idle = Some \<lparr>notebook_dir = ''/home/user''\<rparr>
   \<and> formatDir idle ''/home/user/sub'' = ''sub''
   \<and> formatDir idle ''/home/user'' = ''<workspace_root>''
   \<and> formatDir idle ''/other/path'' = ''/other/path''"
proof -
  have cfg: "statusConfig idle = Some \<lparr>notebook_dir = ''/home/user''\<rparr>"
    by (simp add: example_defs)
  have root: "notebook_dir \<lparr>notebook_dir = ''/home/user''\<rparr> = ''/home/user''"
    "''/home/user'' \<noteq> []" by simp_all
  from formatDir_single_directory [OF cfg root, of "''/home/user/sub''"]
    formatDir_single_directory [OF cfg root, of "''/home/user''"]
    formatDir_single_directory [OF cfg root, of "''/other/path''"] cfg
  show ?thesis by simp
qed

text \<open>
  Claim C9. With the root \<^verbatim>\<open>/home/user\<close>, the example of the claim holds:
  \<^verbatim>\<open>/home/user/a,label:/home/user/b\<close> is rendered as \<^verbatim>\<open>a,label:b\<close>
  (\<open>formatDir_multi\<close> and \<open>formatDir_labelled_segment\<close> above give the general shape
  for segments with at most one colon). But a segment is cut with \<^verbatim>\<open>split(':')\<close> and only
  its fields 0 and 1 are used, so whatever follows a second colon of the segment is
  lost: the path \<^verbatim>\<open>/home/user/b:c\<close>, on its own rendered as \<^verbatim>\<open>b:c\<close>, is rendered as
  \<^verbatim>\<open>b\<close> behind a label, and a labelled \<^verbatim>\<open>s3://\<close> location loses its whole path.
\<close>

theorem formatDir_drops_after_second_colon:
  "formatDir idle ''/home/user/a,label:/home/user/b'' = ''a,label:b''
   \<and> formatDir idle ''/home/user/a,label:/home/user/b:c'' = ''a,label:b''
   \<and> formatDir idle ''/home/user/b:c'' = ''b:c''
   \<and> formatDir idle ''run1:s3://bucket/a,run2:s3://bucket/b'' = ''run1:s3,run2:s3''"
  by (simp add: formatDir.simps str_includes_def Let_def example_defs)

end
